theory Spec2Isabelle
  imports Main "HOL-Library.Char_ord" "HOL-Library.List_Lexorder"
begin

section \<open>The port container of a streaming kernel (port.hpp)\<close>

text \<open>
  A shallow embedding of class \<open>Port\<close>. The member templates \<open>addPort\<close>, \<open>addPorts\<close> and
  \<open>initializeConstMap\<close> are defined in the header and are translated line by line. The
  remaining members are only declared there; their models follow the design document and
  are marked as such.

  The counters of the source are \<open>std::size_t\<close>. They are modelled by \<open>nat\<close>: lemma
  \<open>addPorts_arith_bounded\<close> below shows that every value \<open>addPorts\<close> computes is bounded by
  the byte length of the buffer, so no operation of the loop can wrap around.
\<close>

subsection \<open>Failures\<close>

datatype error =
  DivisionByZero      \<comment> \<open>\<open>length / n_ports\<close> with \<open>n_ports == 0\<close>\<close>
| NullDereference     \<comment> \<open>\<open>const_map[ t ]->insert\<close> on a key that \<open>operator[]\<close> had to create\<close>
| PortNotFound
| AmbiguousPort

subsection \<open>Element types\<close>

text \<open>
  The template parameter \<open>T\<close>. The code uses two facts about it: \<open>typeid( T )\<close> and
  \<open>sizeof( T )\<close>. A complete object type of C++ has a size of at least one byte, so the
  stored number is the size minus one.
\<close>

type_synonym type_index = string

datatype ctype = CType (type_name: string) (size_minus_one: nat)

definition typeid :: "ctype \<Rightarrow> type_index" where
  "typeid T = type_name T"

definition sizeof :: "ctype \<Rightarrow> nat" where
  "sizeof T = Suc (size_minus_one T)"

subsection \<open>\<open>std::to_string\<close> on \<open>std::size_t\<close>\<close>

definition digit_char :: "nat \<Rightarrow> char" where
  "digit_char d = ''0123456789'' ! d"

function to_string :: "nat \<Rightarrow> string" where
  "to_string n =
     (if n < 10 then [digit_char n]
      else to_string (n div 10) @ [digit_char (n mod 10)])"
  by pat_completeness auto
termination
  by (relation "measure (\<lambda>n. n)") auto

declare to_string.simps [simp del]

subsection \<open>\<open>std::map\<close>\<close>

text \<open>
  Modelled from the spec: the declaration of \<open>portmap_t\<close> (portmap_t.hpp) is not part of the
  sources at hand. The design document calls the table "an ordered-by-insertion mapping
  from port name to PortRecord" with unique keys, so a map is an association list in
  insertion order. \<open>map_insert\<close> is \<open>insert\<close> of the standard containers: it never
  overwrites, and the second component of its result tells whether the pair went in.
\<close>

type_synonym ('k, 'v) std_map = "('k \<times> 'v) list"

definition map_find :: "('k, 'v) std_map \<Rightarrow> 'k \<Rightarrow> 'v option" where
  "map_find m k = map_of m k"

definition map_insert :: "('k, 'v) std_map \<Rightarrow> 'k \<times> 'v \<Rightarrow> ('k, 'v) std_map \<times> bool" where
  "map_insert m kv =
     (case map_find m (fst kv) of
        None \<Rightarrow> (m @ [kv], True)
      | Some _ \<Rightarrow> (m, False))"

text \<open>Writing through the pointer stored under a key: the entry keeps its place.\<close>

fun map_assign :: "('k, 'v) std_map \<Rightarrow> 'k \<Rightarrow> 'v \<Rightarrow> ('k, 'v) std_map" where
  "map_assign [] k v = []"
| "map_assign ((k', v') # m) k v =
     (if k' = k then (k, v) # m else (k', v') # map_assign m k v)"

subsection \<open>Port records\<close>

text \<open>
  Modelled from the spec: \<open>Type::RingBufferType\<close> (ringbuffertypes.hpp), the factory
  \<open>RingBuffer< T, type, instrumented >::make_new_fifo\<close> (ringbuffer.tcc), \<open>instr_map_t\<close> and
  \<open>PortInfo\<close> with its constructors (port_info.hpp) are not part of the sources at hand.
  The storage classes are the two of the design document. A factory is named by its three
  template arguments; the third defaults to "uninstrumented". A \<open>PortInfo\<close> has the fields
  of the PortRecord of the design document under the names port.hpp uses, and the slot for
  the queue that graph resolution binds later.
\<close>

datatype ring_buffer_type = Heap | SharedMemory

datatype fifo_ctor = make_new_fifo ctype ring_buffer_type bool

type_synonym instr_map_t = "(bool, fifo_ctor) std_map"

type_synonym const_map_t = "(ring_buffer_type, instr_map_t) std_map"

record prealloc =
  base_ptr :: nat
  element_offset :: nat
  length_in_elements :: nat

record PortInfo =
  port_type :: type_index
  my_kernel :: nat
  my_name :: string
  preallocated :: "prealloc option"
  const_map :: const_map_t
  fifo :: "nat option"

text \<open>\<open>PortInfo( typeid( T ) )\<close>\<close>

definition PortInfo_of_type :: "type_index \<Rightarrow> PortInfo" where
  "PortInfo_of_type t =
     \<lparr>port_type = t, my_kernel = 0, my_name = '''', preallocated = None,
      const_map = [], fifo = None\<rparr>"

text \<open>\<open>PortInfo( typeid( T ), ptr, nitems, start_index )\<close>\<close>

definition PortInfo_of_buffer :: "type_index \<Rightarrow> nat \<Rightarrow> nat \<Rightarrow> nat \<Rightarrow> PortInfo" where
  "PortInfo_of_buffer t ptr nitems start_index =
     \<lparr>port_type = t, my_kernel = 0, my_name = '''',
      preallocated =
        Some \<lparr>base_ptr = ptr, element_offset = start_index, length_in_elements = nitems\<rparr>,
      const_map = [], fifo = None\<rparr>"

subsection \<open>The container\<close>

text \<open>
  Pointers are addresses, \<open>nullptr\<close> is 0. The fields are those of port.hpp, lines 226 to
  244.
\<close>

record Port =
  portmap :: "(string, PortInfo) std_map"
  kernel :: nat
  alloc_ptr :: nat
  alloc_ptr_length :: nat

text \<open>
  Modelled from the spec: the bodies of the two constructors are in port.cpp, which is not
  part of the sources at hand. A new container has an empty table; the fields the standard
  constructor does not receive keep the default member initialisers of the header.
\<close>

definition Port_of_kernel :: "nat \<Rightarrow> Port" where
  "Port_of_kernel k = \<lparr>portmap = [], kernel = k, alloc_ptr = 0, alloc_ptr_length = 0\<rparr>"

definition Port_of_buffer :: "nat \<Rightarrow> nat \<Rightarrow> nat \<Rightarrow> Port" where
  "Port_of_buffer k ptr nbytes =
     \<lparr>portmap = [], kernel = k, alloc_ptr = ptr, alloc_ptr_length = nbytes\<rparr>"

subsection \<open>\<open>initializeConstMap\<close> (lines 186 to 204)\<close>

text \<open>
  \<open>pi.const_map[ t ]->insert( ... )\<close>: \<open>operator[]\<close> of \<open>std::map\<close> creates a null pointer
  under an absent key, and the arrow dereferences what it finds.
\<close>

definition instr_insert ::
  "const_map_t \<Rightarrow> ring_buffer_type \<Rightarrow> bool \<times> fifo_ctor \<Rightarrow> error + const_map_t" where
  "instr_insert cm t entry =
     (case map_find cm t of
        None \<Rightarrow> Inl NullDereference
      | Some im \<Rightarrow> Inr (map_assign cm t (fst (map_insert im entry))))"

definition initializeConstMap :: "ctype \<Rightarrow> PortInfo \<Rightarrow> error + PortInfo" where
  "initializeConstMap T pi =
     (let cm0 = fst (map_insert (const_map pi) (Heap, [])) in
      (case instr_insert cm0 Heap (False, make_new_fifo T Heap False) of
         Inl e \<Rightarrow> Inl e
       | Inr cm1 \<Rightarrow>
      (case instr_insert cm1 Heap (True, make_new_fifo T Heap True) of
         Inl e \<Rightarrow> Inl e
       | Inr cm2 \<Rightarrow>
      (let cm3 = fst (map_insert cm2 (SharedMemory, [])) in
      (case instr_insert cm3 SharedMemory (False, make_new_fifo T SharedMemory False) of
         Inl e \<Rightarrow> Inl e
       | Inr cm4 \<Rightarrow> Inr (pi\<lparr>const_map := cm4\<rparr>))))))"

subsection \<open>\<open>addPort\<close> (lines 84 to 100)\<close>

definition addPort :: "ctype \<Rightarrow> string \<Rightarrow> Port \<Rightarrow> error + bool \<times> Port" where
  "addPort T port_name p =
     (let pi = PortInfo_of_type (typeid T);
          pi = pi\<lparr>my_kernel := kernel p\<rparr>;
          pi = pi\<lparr>my_name := port_name\<rparr>
      in case initializeConstMap T pi of
           Inl e \<Rightarrow> Inl e
         | Inr pi \<Rightarrow>
             (let ret_val = map_insert (portmap p) (port_name, pi)
              in Inr (snd ret_val, p\<lparr>portmap := fst ret_val\<rparr>)))"

subsection \<open>\<open>addPorts\<close> (lines 108 to 130)\<close>

text \<open>
  The body of the \<open>for\<close> loop, and the loop. The address of \<open>existing_buff_t[ start_index ]\<close>
  is \<open>start_index\<close> elements of \<open>sizeof( T )\<close> bytes behind \<open>alloc_ptr\<close>. The result of
  \<open>insert\<close> is dropped, as in line 127.
\<close>

definition addPorts_body ::
  "ctype \<Rightarrow> nat \<Rightarrow> nat \<Rightarrow> nat \<Rightarrow> nat \<Rightarrow> Port \<Rightarrow> error + Port" where
  "addPorts_body T n_ports inc adder index p =
     (let start_index = index * inc;
          pi = PortInfo_of_buffer (typeid T)
                 (alloc_ptr p + start_index * sizeof T)
                 (inc + (if index = n_ports - 1 then adder else 0))
                 start_index;
          pi = pi\<lparr>my_kernel := kernel p\<rparr>;
          name = to_string index;
          pi = pi\<lparr>my_name := name\<rparr>
      in case initializeConstMap T pi of
           Inl e \<Rightarrow> Inl e
         | Inr pi \<Rightarrow> Inr (p\<lparr>portmap := fst (map_insert (portmap p) (name, pi))\<rparr>))"

function addPorts_loop ::
  "ctype \<Rightarrow> nat \<Rightarrow> nat \<Rightarrow> nat \<Rightarrow> nat \<Rightarrow> Port \<Rightarrow> error + Port" where
  "addPorts_loop T n_ports inc adder index p =
     (if index < n_ports then
        (case addPorts_body T n_ports inc adder index p of
           Inl e \<Rightarrow> Inl e
         | Inr p' \<Rightarrow> addPorts_loop T n_ports inc adder (index + 1) p')
      else Inr p)"
  by pat_completeness auto
termination
  by (relation "measure (\<lambda>(T, n_ports, inc, adder, index, p). n_ports - index)") auto

declare addPorts_loop.simps [simp del]

text \<open>
  The division and the remainder of lines 113 and 114 come before the loop; with
  \<open>n_ports == 0\<close> the program stops there.
\<close>

definition addPorts :: "ctype \<Rightarrow> nat \<Rightarrow> Port \<Rightarrow> error + bool \<times> Port" where
  "addPorts T n_ports p =
     (let length = alloc_ptr_length p div sizeof T in
      if n_ports = 0 then Inl DivisionByZero
      else
        (let inc = length div n_ports;
             adder = length mod n_ports
         in case addPorts_loop T n_ports inc adder 0 p of
              Inl e \<Rightarrow> Inl e
            | Inr p' \<Rightarrow> Inr (True, p')))"

subsection \<open>Lookup\<close>

text \<open>
  Modelled from the spec: \<open>getPortType\<close>, \<open>operator[]\<close>, \<open>getPortInfoFor\<close> and \<open>getPortInfo\<close>
  are declared in port.hpp (lines 142, 149, 220 and 212) and defined in port.cpp, which is
  not part of the sources at hand. Each lookup by name "fails with PortNotFound if name
  absent" and otherwise returns what the record stores: the type tag, the queue bound to
  the name, the record. \<open>getPortInfo\<close> "fails with AmbiguousPort if the table holds zero or
  more than one entry".
\<close>

definition getPortType :: "Port \<Rightarrow> string \<Rightarrow> error + type_index" where
  "getPortType p port_name =
     (case map_find (portmap p) port_name of
        None \<Rightarrow> Inl PortNotFound
      | Some pi \<Rightarrow> Inr (port_type pi))"

definition port_at :: "Port \<Rightarrow> string \<Rightarrow> error + nat option" where
  "port_at p port_name =
     (case map_find (portmap p) port_name of
        None \<Rightarrow> Inl PortNotFound
      | Some pi \<Rightarrow> Inr (fifo pi))"

definition getPortInfoFor :: "Port \<Rightarrow> string \<Rightarrow> error + PortInfo" where
  "getPortInfoFor p port_name =
     (case map_find (portmap p) port_name of
        None \<Rightarrow> Inl PortNotFound
      | Some pi \<Rightarrow> Inr pi)"

definition getPortInfo :: "Port \<Rightarrow> error + PortInfo" where
  "getPortInfo p =
     (case portmap p of
        [] \<Rightarrow> Inl AmbiguousPort
      | [entry] \<Rightarrow> Inr (snd entry)
      | _ # _ # _ \<Rightarrow> Inl AmbiguousPort)"

subsection \<open>Enumeration\<close>

text \<open>
  Modelled from the spec: \<open>hasPorts\<close>, \<open>count\<close>, \<open>begin\<close> and \<open>end\<close> are declared in
  port.hpp (lines 157 to 175) and defined in port.cpp; \<open>PortIterator\<close> is declared in
  portiterator.hpp. \<open>hasPorts\<close> is "true iff the table is non-empty", \<open>count\<close> is the
  "number of distinct declared ports", and a cursor walks forward "over (name, PortRecord)
  pairs in table order". A cursor is a position in the table; \<open>traverse\<close> collects the
  names a cursor visits until it reaches \<open>end()\<close>.
\<close>

definition hasPorts :: "Port \<Rightarrow> bool" where
  "hasPorts p = (portmap p \<noteq> [])"

definition count :: "Port \<Rightarrow> nat" where
  "count p = length (portmap p)"

type_synonym PortIterator = nat

definition port_begin :: "Port \<Rightarrow> PortIterator" where
  "port_begin p = 0"

definition port_end :: "Port \<Rightarrow> PortIterator" where
  "port_end p = length (portmap p)"

function traverse :: "Port \<Rightarrow> PortIterator \<Rightarrow> string list" where
  "traverse p it =
     (if it < port_end p then fst (portmap p ! it) # traverse p (it + 1) else [])"
  by pat_completeness auto
termination
  by (relation "measure (\<lambda>(p, it). port_end p - it)") auto

declare traverse.simps [simp del]

definition enumeration :: "Port \<Rightarrow> string list" where
  "enumeration p = traverse p (port_begin p)"

subsection \<open>Sequences of declarations\<close>

text \<open>
  The table changes through \<open>addPort\<close> and \<open>addPorts\<close> only. A reachable state is what a
  list of such calls leaves behind; a call that crashes ends the run.
\<close>

datatype call = AddPort ctype string | AddPorts ctype nat

fun perform :: "call \<Rightarrow> Port \<Rightarrow> error + bool \<times> Port" where
  "perform (AddPort T port_name) p = addPort T port_name p"
| "perform (AddPorts T n_ports) p = addPorts T n_ports p"

fun calls :: "call list \<Rightarrow> Port \<Rightarrow> error + Port" where
  "calls [] p = Inr p"
| "calls (c # cs) p =
     (case perform c p of
        Inl e \<Rightarrow> Inl e
      | Inr (ret_val, p') \<Rightarrow> calls cs p')"

text \<open>The names a call hands to \<open>insert\<close>, in the order of the insertions.\<close>

fun names_of_call :: "call \<Rightarrow> string list" where
  "names_of_call (AddPort T port_name) = [port_name]"
| "names_of_call (AddPorts T n_ports) = map to_string [0..<n_ports]"

definition names_of_calls :: "call list \<Rightarrow> string list" where
  "names_of_calls cs = concat (map names_of_call cs)"

text \<open>Keeping the first occurrence of every name of a sequence.\<close>

definition add_name :: "string list \<Rightarrow> string \<Rightarrow> string list" where
  "add_name ns x = (if x \<in> set ns then ns else ns @ [x])"

definition first_occurrences :: "string list \<Rightarrow> string list" where
  "first_occurrences xs = foldl add_name [] xs"

subsection \<open>What the claims speak of\<close>

text \<open>
  The slice the design document assigns to port \<open>i\<close> of \<open>n\<close> over a buffer of \<open>L\<close>
  elements: its first element and its number of elements.
\<close>

definition slice_start :: "nat \<Rightarrow> nat \<Rightarrow> nat \<Rightarrow> nat" where
  "slice_start L n i = i * (L div n)"

definition slice_length :: "nat \<Rightarrow> nat \<Rightarrow> nat \<Rightarrow> nat" where
  "slice_length L n i = L div n + (if i = n - 1 then L mod n else 0)"

text \<open>The element offset and the length of the slice stored under a name, if there is one.\<close>

definition slice_of :: "Port \<Rightarrow> string \<Rightarrow> (nat \<times> nat) option" where
  "slice_of p port_name =
     (case map_find (portmap p) port_name of
        None \<Rightarrow> None
      | Some pi \<Rightarrow>
          (case preallocated pi of
             None \<Rightarrow> None
           | Some b \<Rightarrow> Some (element_offset b, length_in_elements b)))"

text \<open>The factory a record holds for a storage class and an instrumentation flag.\<close>

definition factory :: "PortInfo \<Rightarrow> ring_buffer_type \<Rightarrow> bool \<Rightarrow> fifo_ctor option" where
  "factory pi t instrumented =
     (case map_find (const_map pi) t of
        None \<Rightarrow> None
      | Some im \<Rightarrow> map_find im instrumented)"

text \<open>The registry \<open>initializeConstMap\<close> builds in a new record.\<close>

definition registry :: "ctype \<Rightarrow> const_map_t" where
  "registry T =
     [(Heap, [(False, make_new_fifo T Heap False), (True, make_new_fifo T Heap True)]),
      (SharedMemory, [(False, make_new_fifo T SharedMemory False)])]"

text \<open>The record \<open>addPort\<close> hands to \<open>insert\<close>.\<close>

definition declared_record :: "ctype \<Rightarrow> nat \<Rightarrow> string \<Rightarrow> PortInfo" where
  "declared_record T k port_name =
     \<lparr>port_type = typeid T, my_kernel = k, my_name = port_name, preallocated = None,
      const_map = registry T, fifo = None\<rparr>"

text \<open>The record iteration \<open>index\<close> of \<open>addPorts\<close> hands to \<open>insert\<close>.\<close>

definition sliced_record ::
  "ctype \<Rightarrow> nat \<Rightarrow> nat \<Rightarrow> nat \<Rightarrow> nat \<Rightarrow> nat \<Rightarrow> nat \<Rightarrow> PortInfo" where
  "sliced_record T k ptr n_ports inc adder index =
     \<lparr>port_type = typeid T, my_kernel = k, my_name = to_string index,
      preallocated =
        Some \<lparr>base_ptr = ptr + index * inc * sizeof T,
              element_offset = index * inc,
              length_in_elements = inc + (if index = n_ports - 1 then adder else 0)\<rparr>,
      const_map = registry T, fifo = None\<rparr>"

text \<open>The names of the table, in its order, each with the slice stored under it.\<close>

definition slices :: "Port \<Rightarrow> (string \<times> (nat \<times> nat) option) list" where
  "slices p = map (\<lambda>port_name. (port_name, slice_of p port_name)) (map fst (portmap p))"

section \<open>Properties\<close>

subsection \<open>Decimal strings are distinct\<close>

lemma digit_char_inj:
  assumes "a < 10" and "b < 10" and "digit_char a = digit_char b"
  shows "a = b"
proof -
  have "a \<in> {0, 1, 2, 3, 4, 5, 6, 7, 8, 9}"
    using assms(1) by auto
  moreover have "b \<in> {0, 1, 2, 3, 4, 5, 6, 7, 8, 9}"
    using assms(2) by auto
  ultimately show ?thesis
    using assms(3) unfolding digit_char_def by auto
qed

lemma to_string_nonempty: "to_string n \<noteq> []"
  by (subst to_string.simps) simp

lemma to_string_inj: "to_string a = to_string b \<Longrightarrow> a = b"
proof (induction a arbitrary: b rule: to_string.induct)
  case (1 n)
  show ?case
  proof (cases "n < 10")
    case True
    note small = this
    show ?thesis
    proof (cases "b < 10")
      case True
      with small "1.prems" show ?thesis
        by (simp add: to_string.simps [of n] to_string.simps [of b] digit_char_inj)
    next
      case False
      with small "1.prems" to_string_nonempty [of "b div 10"] show ?thesis
        by (simp add: to_string.simps [of n] to_string.simps [of b])
    qed
  next
    case False
    note large = this
    show ?thesis
    proof (cases "b < 10")
      case True
      with large "1.prems" to_string_nonempty [of "n div 10"] show ?thesis
        by (simp add: to_string.simps [of n] to_string.simps [of b])
    next
      case False
      with large "1.prems" have quot: "to_string (n div 10) = to_string (b div 10)"
        and rest: "digit_char (n mod 10) = digit_char (b mod 10)"
        by (simp_all add: to_string.simps [of n] to_string.simps [of b])
      from "1.IH" [OF large quot] have "n div 10 = b div 10" .
      moreover from rest have "n mod 10 = b mod 10"
        by (intro digit_char_inj) simp_all
      ultimately show ?thesis
        by (metis div_mult_mod_eq)
    qed
  qed
qed

subsection \<open>Maps, and what one declaration does\<close>

lemma map_find_None_iff: "map_find m k = None \<longleftrightarrow> k \<notin> set (map fst m)"
  by (simp add: map_find_def map_of_eq_None_iff)

lemma map_insert_fresh: "map_find m k = None \<Longrightarrow> map_insert m (k, v) = (m @ [(k, v)], True)"
  by (simp add: map_insert_def)

lemma map_insert_present: "map_find m k = Some w \<Longrightarrow> map_insert m (k, v) = (m, False)"
  by (simp add: map_insert_def)

lemma map_find_append:
  "map_find (m @ m') k = (case map_find m k of None \<Rightarrow> map_find m' k | Some v \<Rightarrow> Some v)"
  unfolding map_find_def by (simp add: map_add_def)

lemma map_find_insert:
  "map_find (fst (map_insert m (k, v))) k' =
     (case map_find m k' of Some w \<Rightarrow> Some w | None \<Rightarrow> if k' = k then Some v else None)"
proof (cases "map_find m k")
  case None
  then show ?thesis
    by (simp add: map_insert_fresh map_find_append) (simp add: map_find_def split: option.splits)
next
  case (Some w)
  then show ?thesis
    by (auto simp: map_insert_present split: option.splits)
qed

lemma keys_insert: "map fst (fst (map_insert m (k, v))) = add_name (map fst m) k"
proof (cases "map_find m k")
  case None
  then show ?thesis
    using map_find_None_iff [of m k] by (simp add: map_insert_fresh add_name_def)
next
  case (Some w)
  then show ?thesis
    using map_find_None_iff [of m k] by (simp add: map_insert_present add_name_def)
qed

lemma initializeConstMap_new:
  "const_map pi = [] \<Longrightarrow> initializeConstMap T pi = Inr (pi\<lparr>const_map := registry T\<rparr>)"
  by (simp add: initializeConstMap_def instr_insert_def map_insert_def map_find_def registry_def)

lemma addPort_eq:
  "addPort T port_name p =
     Inr (map_find (portmap p) port_name = None, 
          p\<lparr>portmap := fst (map_insert (portmap p) (port_name, declared_record T (kernel p) port_name))\<rparr>)"
  by (cases "map_find (portmap p) port_name")
     (simp_all add: addPort_def Let_def PortInfo_of_type_def initializeConstMap_new declared_record_def
       map_insert_def)

lemma addPorts_body_eq:
  "addPorts_body T n inc adder i p =
     Inr (p\<lparr>portmap := fst (map_insert (portmap p)
            (to_string i, sliced_record T (kernel p) (alloc_ptr p) n inc adder i))\<rparr>)"
  by (simp add: addPorts_body_def Let_def PortInfo_of_buffer_def initializeConstMap_new sliced_record_def)


lemma addPorts_loop_eq:
  "addPorts_loop T n inc adder i p =
     Inr (p\<lparr>portmap := portmap p @
            map (\<lambda>j. (to_string j, sliced_record T (kernel p) (alloc_ptr p) n inc adder j))
              (filter (\<lambda>j. map_find (portmap p) (to_string j) = None) [i..<n])\<rparr>)"
proof (induction "n - i" arbitrary: i p)
  case 0
  then show ?case
    by (simp add: addPorts_loop.simps [of T n inc adder i p])
next
  case (Suc d)
  then have less: "i < n" and rest: "d = n - Suc i"
    by simp_all
  let ?r = "\<lambda>j. sliced_record T (kernel p) (alloc_ptr p) n inc adder j"
  let ?p = "p\<lparr>portmap := fst (map_insert (portmap p) (to_string i, ?r i))\<rparr>"
  have step: "addPorts_loop T n inc adder i p = addPorts_loop T n inc adder (Suc i) ?p"
    using less by (simp add: addPorts_loop.simps [of T n inc adder i p] addPorts_body_eq)
  have later: "map_find (portmap ?p) (to_string j) = None \<longleftrightarrow>
      map_find (portmap p) (to_string j) = None" if "j \<in> set [Suc i..<n]" for j
  proof -
    from that have "to_string j \<noteq> to_string i"
      using to_string_inj [of j i] by auto
    then show ?thesis
      by (simp add: map_find_insert split: option.splits)
  qed
  have filt: "filter (\<lambda>j. map_find (portmap ?p) (to_string j) = None) [Suc i..<n] =
      filter (\<lambda>j. map_find (portmap p) (to_string j) = None) [Suc i..<n]"
    by (rule filter_cong [OF refl]) (rule later)
  show ?case
  proof (cases "map_find (portmap p) (to_string i)")
    case None
    then show ?thesis
      unfolding step Suc.hyps(1) [OF rest, of ?p] filt
      using less by (simp add: map_insert_fresh upt_conv_Cons)
  next
    case (Some w)
    then show ?thesis
      unfolding step Suc.hyps(1) [OF rest, of ?p] filt
      using less by (simp add: map_insert_present upt_conv_Cons)
  qed
qed

lemma addPorts_eq:
  "0 < n \<Longrightarrow> addPorts T n p =
     Inr (True, p\<lparr>portmap := portmap p @
            map (\<lambda>j. (to_string j, sliced_record T (kernel p) (alloc_ptr p) n
                   ((alloc_ptr_length p div sizeof T) div n) ((alloc_ptr_length p div sizeof T) mod n) j))
              (filter (\<lambda>j. map_find (portmap p) (to_string j) = None) [0..<n])\<rparr>)"
  by (simp add: addPorts_def Let_def addPorts_loop_eq)

lemma addPorts_zero: "addPorts T 0 p = Inl DivisionByZero"
  by (simp add: addPorts_def)

subsection \<open>Runs of declarations\<close>

lemma foldl_add_name_set: "set (foldl add_name ns xs) = set ns \<union> set xs"
  by (induction xs arbitrary: ns) (auto simp: add_name_def)

lemma foldl_add_name_distinct: "distinct ns \<Longrightarrow> distinct (foldl add_name ns xs)"
  by (induction xs arbitrary: ns) (auto simp: add_name_def)

lemma addPorts_loop_keys:
  "map fst (portmap (projr (addPorts_loop T n inc adder i p))) =
     foldl add_name (map fst (portmap p)) (map to_string [i..<n])"
proof (induction "n - i" arbitrary: i p)
  case 0
  then show ?case
    by (simp add: addPorts_loop.simps [of T n inc adder i p])
next
  case (Suc d)
  then have less: "i < n" and rest: "d = n - Suc i"
    by simp_all
  let ?p = "p\<lparr>portmap := fst (map_insert (portmap p)
      (to_string i, sliced_record T (kernel p) (alloc_ptr p) n inc adder i))\<rparr>"
  have step: "addPorts_loop T n inc adder i p = addPorts_loop T n inc adder (Suc i) ?p"
    using less by (simp add: addPorts_loop.simps [of T n inc adder i p] addPorts_body_eq)
  show ?case
    unfolding step Suc.hyps(1) [OF rest, of ?p]
    using less by (simp add: keys_insert upt_conv_Cons)
qed

lemma perform_keys:
  "perform c p = Inr (b, p') \<Longrightarrow>
     map fst (portmap p') = foldl add_name (map fst (portmap p)) (names_of_call c)"
proof (cases c)
  case (AddPort T name)
  assume "perform c p = Inr (b, p')"
  with AddPort show ?thesis
    by (auto simp: addPort_eq keys_insert)
next
  case (AddPorts T n)
  assume run: "perform c p = Inr (b, p')"
  with AddPorts have "0 < n"
    by (cases n) (simp_all add: addPorts_zero)
  with run AddPorts have "addPorts_loop T n ((alloc_ptr_length p div sizeof T) div n) ((alloc_ptr_length p div sizeof T) mod n) 0 p = Inr p'"
    by (auto simp: addPorts_def Let_def split: sum.splits)
  with addPorts_loop_keys [of T n "(alloc_ptr_length p div sizeof T) div n" "(alloc_ptr_length p div sizeof T) mod n" 0 p]
  show ?thesis using AddPorts by simp
qed

lemma calls_keys:
  "calls cs p = Inr p' \<Longrightarrow>
     map fst (portmap p') = foldl add_name (map fst (portmap p)) (names_of_calls cs)"
proof (induction cs arbitrary: p)
  case Nil
  then show ?case by (simp add: names_of_calls_def)
next
  case (Cons c cs)
  from Cons.prems obtain b q where first: "perform c p = Inr (b, q)" and rest: "calls cs q = Inr p'"
    by (auto split: sum.splits)
  show ?case
    using Cons.IH [OF rest] perform_keys [OF first] by (simp add: names_of_calls_def)
qed

lemma perform_keeps:
  "perform c p = Inr (b, p') \<Longrightarrow> map_find (portmap p) name = Some pi \<Longrightarrow>
     map_find (portmap p') name = Some pi"
proof (cases c)
  case (AddPort T x)
  assume "perform c p = Inr (b, p')" "map_find (portmap p) name = Some pi"
  with AddPort show ?thesis
    by (auto simp: addPort_eq map_find_insert)
next
  case (AddPorts T n)
  assume run: "perform c p = Inr (b, p')" and old: "map_find (portmap p) name = Some pi"
  with AddPorts have "0 < n"
    by (cases n) (simp_all add: addPorts_zero)
  with run AddPorts old show ?thesis
    by (auto simp: addPorts_eq map_find_append)
qed

lemma calls_keeps:
  "calls cs p = Inr p' \<Longrightarrow> map_find (portmap p) name = Some pi \<Longrightarrow>
     map_find (portmap p') name = Some pi"
proof (induction cs arbitrary: p)
  case Nil
  then show ?case by simp
next
  case (Cons c cs)
  from Cons.prems(1) obtain b q where first: "perform c p = Inr (b, q)" and rest: "calls cs q = Inr p'"
    by (auto split: sum.splits)
  show ?case
    using Cons.IH [OF rest perform_keeps [OF first Cons.prems(2)]] .
qed

lemma calls_total:
  "(\<exists>p'. calls cs p = Inr p') \<longleftrightarrow> (\<forall>T. AddPorts T 0 \<notin> set cs)"
proof (induction cs arbitrary: p)
  case Nil
  then show ?case by simp
next
  case (Cons c cs)
  show ?case
  proof (cases c)
    case (AddPort T x)
    then show ?thesis
      using Cons.IH by (simp add: addPort_eq)
  next
    case (AddPorts T n)
    show ?thesis
    proof (cases "n = 0")
      case True
      with AddPorts show ?thesis
        by (auto simp: addPorts_zero)
    next
      case False
      with AddPorts show ?thesis
        using Cons.IH by (simp add: addPorts_eq)
    qed
  qed
qed

subsection \<open>Traversal, and the arithmetic of the slices\<close>

lemma traverse_drop: "traverse p it = map fst (drop it (portmap p))"
proof (induction "length (portmap p) - it" arbitrary: it)
  case 0
  then show ?case
    by (simp add: traverse.simps [of p it] port_end_def)
next
  case (Suc d)
  then have less: "it < length (portmap p)" and rest: "d = length (portmap p) - Suc it"
    by simp_all
  from less have "drop it (portmap p) = portmap p ! it # drop (Suc it) (portmap p)"
    by (simp add: Cons_nth_drop_Suc)
  with less Suc.hyps(1) [OF rest] show ?case
    by (simp add: traverse.simps [of p it] port_end_def)
qed

lemma enumeration_keys: "enumeration p = map fst (portmap p)"
  by (simp add: enumeration_def port_begin_def traverse_drop)

lemma slice_sum:
  assumes "0 < n"
  shows "(\<Sum>i<n. slice_length L n i) = L"
proof -
  have "(\<Sum>i<n. slice_length L n i) = (\<Sum>i<n. L div n) + (\<Sum>i<n. if i = n - 1 then L mod n else 0)"
    by (simp add: slice_length_def sum.distrib)
  also have "(\<Sum>i<n. if i = n - 1 then L mod n else 0) = L mod n"
    using assms by (simp add: sum.delta')
  finally show ?thesis
    by simp
qed

lemma slice_disjoint:
  assumes "i < j" and "j < n"
  shows "slice_start L n i + slice_length L n i \<le> slice_start L n j"
proof -
  from assms have "i \<noteq> n - 1"
    by simp
  then have "slice_start L n i + slice_length L n i = Suc i * (L div n)"
    by (simp add: slice_start_def slice_length_def)
  also from assms(1) have "\<dots> \<le> j * (L div n)"
    by (intro mult_le_mono1) simp
  finally show ?thesis
    by (simp add: slice_start_def)
qed

lemma slice_inside:
  assumes "i < n"
  shows "slice_start L n i + slice_length L n i \<le> L"
proof (cases "i = n - 1")
  case True
  with assms have "slice_start L n i + slice_length L n i = n * (L div n) + L mod n"
    by (cases n) (simp_all add: slice_start_def slice_length_def)
  then show ?thesis
    by simp
next
  case False
  with assms have "Suc i \<le> n"
    by simp
  then have "Suc i * (L div n) \<le> n * (L div n)"
    by (rule mult_le_mono1)
  also have "\<dots> \<le> L"
    by simp
  finally show ?thesis
    using False by (simp add: slice_start_def slice_length_def)
qed

lemma addPorts_arith_bounded:
  assumes "index < n_ports"
  shows "index * (alloc_ptr_length p div sizeof T div n_ports) * sizeof T
         + (alloc_ptr_length p div sizeof T div n_ports
            + (if index = n_ports - 1 then alloc_ptr_length p div sizeof T mod n_ports else 0)) * sizeof T
         \<le> alloc_ptr_length p"
proof -
  let ?L = "alloc_ptr_length p div sizeof T"
  have "(slice_start ?L n_ports index + slice_length ?L n_ports index) * sizeof T \<le> ?L * sizeof T"
    using slice_inside [OF assms] by (rule mult_le_mono1)
  also have "\<dots> \<le> alloc_ptr_length p"
    by simp
  finally show ?thesis
    by (simp add: slice_start_def slice_length_def add_mult_distrib)
qed

lemma map_find_slices:
  "i \<in> set js \<Longrightarrow> map_find (map (\<lambda>j. (to_string j, r j)) js) (to_string i) = Some (r i)"
  unfolding map_find_def by (induction js) (auto dest: to_string_inj)

lemma map_find_slices_none:
  assumes "name \<notin> to_string ` set js"
  shows "map_find (map (\<lambda>j. (to_string j, r j)) js) name = None"
  using assms by (auto simp: map_find_def map_of_eq_None_iff image_iff)

subsection \<open>The two declarations\<close>

lemma to_string_digit: "n < 10 \<Longrightarrow> to_string n = [digit_char n]"
  by (subst to_string.simps) simp

text \<open>
  Claim C3. \<open>addPorts\<close> returns \<open>true\<close> whenever it returns. With \<open>n_ports == 0\<close>, the
  value of the default argument, the division of line 113 is a division by zero, before
  the loop and so before any insertion; with \<open>n_ports > 0\<close> no division by zero happens,
  and the call returns. Division by zero is the only failure of \<open>addPorts\<close>.
\<close>

theorem addPorts_division_by_zero:
  "(addPorts T n_ports p = Inl DivisionByZero \<longleftrightarrow> n_ports = 0) \<and>
   (\<forall>e. addPorts T n_ports p = Inl e \<longrightarrow> e = DivisionByZero) \<and>
   (\<forall>ret_val p'. addPorts T n_ports p = Inr (ret_val, p') \<longrightarrow> ret_val) \<and>
   (0 < n_ports \<longrightarrow> (\<exists>p'. addPorts T n_ports p = Inr (True, p')))"
proof (cases "n_ports = 0")
  case True
  then show ?thesis
    by (simp add: addPorts_zero)
next
  case False
  then have "0 < n_ports"
    by simp
  from addPorts_eq [OF this, of T p] show ?thesis
    using False by simp
qed

theorem addPorts_division_by_zero_witness:
  "addPorts (CType ''int'' 3) 0 (Port_of_buffer 7 4096 40) = Inl DivisionByZero \<and>
   (0 :: nat) < 3 \<and>
   (\<exists>p'. addPorts (CType ''int'' 3) 3 (Port_of_buffer 7 4096 40) = Inr (True, p'))"
  using addPorts_division_by_zero [of "CType ''int'' 3" 0 "Port_of_buffer 7 4096 40"]
    addPorts_division_by_zero [of "CType ''int'' 3" 3 "Port_of_buffer 7 4096 40"]
  by simp

text \<open>
  Claim C9. When the table already holds a record under the decimal string of an index
  \<open>i < n\<close>, \<open>addPorts<T>(n)\<close> leaves that record as it is (element type, buffer descriptor
  and all other fields), puts fewer than \<open>n\<close> new records into the table, and still
  returns \<open>true\<close>.
\<close>

theorem addPorts_skips_existing:
  assumes "i < n" and "map_find (portmap p) (to_string i) = Some pi"
  shows "\<exists>p'. addPorts T n p = Inr (True, p') \<and>
           map_find (portmap p') (to_string i) = Some pi \<and>
           length (portmap p') < length (portmap p) + n"
proof -
  from assms(1) have pos: "0 < n"
    by simp
  have "length (filter (\<lambda>j. map_find (portmap p) (to_string j) = None) [0..<n]) < length [0..<n]"
    using assms by (intro length_filter_less [of i]) simp_all
  then show ?thesis
    using assms(2) by (simp add: addPorts_eq [OF pos] map_find_append)
qed

theorem addPorts_skips_existing_witness:
  "(2 :: nat) < 3 \<and>
   map_find [(''2'', declared_record (CType ''char'' 0) 7 ''2'')] (to_string 2) =
     Some (declared_record (CType ''char'' 0) 7 ''2'') \<and>
   (\<exists>p'. addPorts (CType ''int'' 3) 3
           \<lparr>portmap = [(''2'', declared_record (CType ''char'' 0) 7 ''2'')], kernel = 7,
            alloc_ptr = 4096, alloc_ptr_length = 40\<rparr> = Inr (True, p') \<and>
         map_find (portmap p') ''2'' = Some (declared_record (CType ''char'' 0) 7 ''2'') \<and>
         length (portmap p') < 4)"
proof -
  have name: "to_string 2 = ''2''"
    by (simp add: to_string_digit digit_char_def)
  have present: "map_find (portmap \<lparr>portmap = [(''2'', declared_record (CType ''char'' 0) 7 ''2'')],
      kernel = 7, alloc_ptr = 4096, alloc_ptr_length = 40\<rparr>) (to_string 2) =
      Some (declared_record (CType ''char'' 0) 7 ''2'')"
    by (simp add: name map_find_def)
  have less: "(2 :: nat) < 3"
    by simp
  from addPorts_skips_existing [OF less present, of "CType ''int'' 3"] show ?thesis
    by (simp add: name map_find_def)
qed

lemma addPorts_fresh:
  assumes "0 < n" and "\<forall>i<n. map_find (portmap p) (to_string i) = None"
  shows "addPorts T n p =
     Inr (True, p\<lparr>portmap := portmap p @
            map (\<lambda>j. (to_string j, sliced_record T (kernel p) (alloc_ptr p) n
                   ((alloc_ptr_length p div sizeof T) div n) ((alloc_ptr_length p div sizeof T) mod n) j))
              [0..<n]\<rparr>)"
proof -
  have "filter (\<lambda>j. map_find (portmap p) (to_string j) = None) [0..<n] = [0..<n]"
    using assms(2) by (simp add: filter_id_conv)
  then show ?thesis
    by (simp add: addPorts_eq [OF assms(1)])
qed

text \<open>
  Claim C1, amended. Let the table hold none of the names \<open>"0"\<close> to \<open>"n-1"\<close>, let \<open>n > 0\<close>
  and let \<open>L\<close> be the number of whole elements of type \<open>T\<close> in the buffer. Then
  \<open>addPorts<T>(n)\<close> returns \<open>true\<close> and adds exactly \<open>n\<close> records, under the pairwise
  different names \<open>"0"\<close> to \<open>"n-1"\<close>; all other names keep what they had. Record \<open>i\<close> has
  element type \<open>T\<close>, starts at element offset \<open>i * (L div n)\<close> (its pointer is that many
  elements behind \<open>alloc_ptr\<close>) and has \<open>L div n\<close> elements, the last record \<open>L mod n\<close>
  more. The slices do not overlap, and their lengths add up to \<open>L\<close>.
\<close>

theorem addPorts_partition:
  assumes "0 < n" and "\<forall>i<n. map_find (portmap p) (to_string i) = None"
  shows "\<exists>p'. addPorts T n p = Inr (True, p') \<and>
           length (portmap p') = length (portmap p) + n \<and>
           (\<forall>i<n. \<exists>pi. map_find (portmap p') (to_string i) = Some pi \<and>
                    port_type pi = typeid T \<and> my_name pi = to_string i \<and>
                    preallocated pi =
                      Some \<lparr>base_ptr = alloc_ptr p
                                + slice_start (alloc_ptr_length p div sizeof T) n i * sizeof T,
                            element_offset = slice_start (alloc_ptr_length p div sizeof T) n i,
                            length_in_elements = slice_length (alloc_ptr_length p div sizeof T) n i\<rparr>) \<and>
           (\<forall>port_name. port_name \<notin> to_string ` {..<n} \<longrightarrow>
              map_find (portmap p') port_name = map_find (portmap p) port_name) \<and>
           inj_on to_string {..<n} \<and>
           (\<forall>i j. i < j \<and> j < n \<longrightarrow>
              slice_start (alloc_ptr_length p div sizeof T) n i
                + slice_length (alloc_ptr_length p div sizeof T) n i
              \<le> slice_start (alloc_ptr_length p div sizeof T) n j) \<and>
           (\<Sum>i<n. slice_length (alloc_ptr_length p div sizeof T) n i) = alloc_ptr_length p div sizeof T"
proof -
  let ?L = "alloc_ptr_length p div sizeof T"
  let ?r = "sliced_record T (kernel p) (alloc_ptr p) n (?L div n) (?L mod n)"
  let ?new = "map (\<lambda>j. (to_string j, ?r j)) [0..<n]"
  let ?p = "p\<lparr>portmap := portmap p @ ?new\<rparr>"
  have result: "addPorts T n p = Inr (True, ?p)"
    using assms by (rule addPorts_fresh)
  have size: "length (portmap ?p) = length (portmap p) + n"
    by simp
  have records: "\<exists>pi. map_find (portmap ?p) (to_string i) = Some pi \<and>
      port_type pi = typeid T \<and> my_name pi = to_string i \<and>
      preallocated pi =
        Some \<lparr>base_ptr = alloc_ptr p + slice_start ?L n i * sizeof T,
              element_offset = slice_start ?L n i,
              length_in_elements = slice_length ?L n i\<rparr>" if "i < n" for i
  proof -
    from that have "map_find ?new (to_string i) = Some (?r i)"
      by (intro map_find_slices) simp
    with that assms(2) have "map_find (portmap ?p) (to_string i) = Some (?r i)"
      by (simp add: map_find_append)
    then show ?thesis
      by (simp add: sliced_record_def slice_start_def slice_length_def)
  qed
  have others: "map_find (portmap ?p) port_name = map_find (portmap p) port_name"
    if "port_name \<notin> to_string ` {..<n}" for port_name
  proof -
    from that have "map_find ?new port_name = None"
      by (intro map_find_slices_none) (simp add: atLeast0LessThan)
    then show ?thesis
      by (simp add: map_find_append split: option.splits)
  qed
  have names: "inj_on to_string {..<n}"
    by (auto intro: inj_onI dest: to_string_inj)
  have apart: "slice_start ?L n i + slice_length ?L n i \<le> slice_start ?L n j"
    if "i < j \<and> j < n" for i j
    using that by (intro slice_disjoint) simp_all
  have total: "(\<Sum>i<n. slice_length ?L n i) = ?L"
    using assms(1) by (rule slice_sum)
  from result size records others names apart total show ?thesis
    by blast
qed

theorem addPorts_partition_witness:
  "(0 :: nat) < 3 \<and>
   portmap (Port_of_buffer 7 4096 40) = [] \<and>
   (\<exists>p'. addPorts (CType ''int'' 3) 3 (Port_of_buffer 7 4096 40) = Inr (True, p') \<and>
      length (portmap p') = 3 \<and>
      slice_of p' (to_string 0) = Some (0, 3) \<and>
      slice_of p' (to_string 2) = Some (6, 4))"
proof -
  have pos: "(0 :: nat) < 3"
    by simp
  have fresh: "\<forall>i<3. map_find (portmap (Port_of_buffer 7 4096 40)) (to_string i) = None"
    by (simp add: Port_of_buffer_def map_find_def)
  from addPorts_partition [OF pos fresh, of "CType ''int'' 3"]
  obtain p' where run: "addPorts (CType ''int'' 3) 3 (Port_of_buffer 7 4096 40) = Inr (True, p')"
    and size: "length (portmap p') = length (portmap (Port_of_buffer 7 4096 40)) + 3"
    and recs: "\<forall>i<3. \<exists>pi. map_find (portmap p') (to_string i) = Some pi \<and>
                    port_type pi = typeid (CType ''int'' 3) \<and> my_name pi = to_string i \<and>
                    preallocated pi =
                      Some \<lparr>base_ptr = alloc_ptr (Port_of_buffer 7 4096 40)
                                + slice_start (alloc_ptr_length (Port_of_buffer 7 4096 40) div sizeof (CType ''int'' 3)) 3 i * sizeof (CType ''int'' 3),
                            element_offset = slice_start (alloc_ptr_length (Port_of_buffer 7 4096 40) div sizeof (CType ''int'' 3)) 3 i,
                            length_in_elements = slice_length (alloc_ptr_length (Port_of_buffer 7 4096 40) div sizeof (CType ''int'' 3)) 3 i\<rparr>"
    by blast
  from recs [rule_format, of 0] have first: "slice_of p' (to_string 0) = Some (0, 3)"
    by (auto simp: slice_of_def Port_of_buffer_def sizeof_def slice_start_def slice_length_def)
  from recs [rule_format, of 2] have last: "slice_of p' (to_string 2) = Some (6, 4)"
    by (auto simp: slice_of_def Port_of_buffer_def sizeof_def slice_start_def slice_length_def)
  from pos run size first last show ?thesis
    by (auto simp: Port_of_buffer_def)
qed

text \<open>
  Claim C1 as stated, for every table, fails on a second call. A buffer of 40 bytes holds
  \<open>L = 10\<close> elements of four bytes. After \<open>addPorts<int>(2)\<close> the call \<open>addPorts<int>(3)\<close>
  adds one record, not three; the records \<open>"0"\<close> and \<open>"1"\<close> keep five elements each, where
  the claim gives record \<open>"0"\<close> three; the slices \<open>"1"\<close> and \<open>"2"\<close> overlap; and the lengths
  add up to 14.
\<close>

theorem addPorts_second_call_counterexample:
  "map_sum id slices
     (calls [AddPorts (CType ''int'' 3) 2, AddPorts (CType ''int'' 3) 3] (Port_of_buffer 7 4096 40)) =
     Inr [(''0'', Some (0, 5)), (''1'', Some (5, 5)), (''2'', Some (6, 4))] \<and>
   (slice_start (40 div sizeof (CType ''int'' 3)) 3 0, slice_length (40 div sizeof (CType ''int'' 3)) 3 0) = (0, 3)"
  by code_simp

text \<open>
  Claim C10, amended. \<open>addPorts\<close> does not look at \<open>alloc_ptr\<close>. On a container without a
  buffer (\<open>alloc_ptr\<close> null, \<open>alloc_ptr_length\<close> zero) whose table holds none of the names
  \<open>"0"\<close> to \<open>"n-1"\<close>, \<open>addPorts<T>(n)\<close> with \<open>n > 0\<close> returns \<open>true\<close> and adds exactly \<open>n\<close>
  records under these names, each with a null pointer, element offset 0 and length 0.
\<close>

theorem addPorts_without_buffer:
  assumes "0 < n" and "alloc_ptr p = 0" and "alloc_ptr_length p = 0"
    and "\<forall>i<n. map_find (portmap p) (to_string i) = None"
  shows "\<exists>p'. addPorts T n p = Inr (True, p') \<and>
           length (portmap p') = length (portmap p) + n \<and>
           (\<forall>i<n. \<exists>pi. map_find (portmap p') (to_string i) = Some pi \<and>
                    port_type pi = typeid T \<and> my_name pi = to_string i \<and>
                    preallocated pi =
                      Some \<lparr>base_ptr = 0, element_offset = 0, length_in_elements = 0\<rparr>)"
proof -
  let ?r = "sliced_record T (kernel p) 0 n 0 0"
  let ?new = "map (\<lambda>j. (to_string j, ?r j)) [0..<n]"
  let ?p = "p\<lparr>portmap := portmap p @ ?new\<rparr>"
  have result: "addPorts T n p = Inr (True, ?p)"
    using addPorts_fresh [OF assms(1) assms(4), of T] by (simp add: assms(2) assms(3))
  have size: "length (portmap ?p) = length (portmap p) + n"
    by simp
  have records: "\<exists>pi. map_find (portmap ?p) (to_string i) = Some pi \<and>
      port_type pi = typeid T \<and> my_name pi = to_string i \<and>
      preallocated pi = Some \<lparr>base_ptr = 0, element_offset = 0, length_in_elements = 0\<rparr>"
    if "i < n" for i
  proof -
    from that have "map_find ?new (to_string i) = Some (?r i)"
      by (intro map_find_slices) simp
    with that assms(4) have "map_find (portmap ?p) (to_string i) = Some (?r i)"
      by (simp add: map_find_append)
    then show ?thesis
      by (simp add: sliced_record_def)
  qed
  from result size records show ?thesis
    by blast
qed

theorem addPorts_without_buffer_witness:
  "(0 :: nat) < 2 \<and> alloc_ptr (Port_of_kernel 7) = 0 \<and> alloc_ptr_length (Port_of_kernel 7) = 0 \<and>
   portmap (Port_of_kernel 7) = [] \<and>
   (\<exists>p'. addPorts (CType ''int'' 3) 2 (Port_of_kernel 7) = Inr (True, p') \<and>
      length (portmap p') = 2 \<and>
      slice_of p' (to_string 0) = Some (0, 0))"
proof -
  have pos: "(0 :: nat) < 2"
    by simp
  have null: "alloc_ptr (Port_of_kernel 7) = 0"
    and empty: "alloc_ptr_length (Port_of_kernel 7) = 0"
    and fresh: "\<forall>i<2. map_find (portmap (Port_of_kernel 7)) (to_string i) = None"
    by (simp_all add: Port_of_kernel_def map_find_def)
  from addPorts_without_buffer [OF pos null empty fresh, of "CType ''int'' 3"]
  obtain p' where run: "addPorts (CType ''int'' 3) 2 (Port_of_kernel 7) = Inr (True, p')"
    and size: "length (portmap p') = length (portmap (Port_of_kernel 7)) + 2"
    and recs: "\<forall>i<2. \<exists>pi. map_find (portmap p') (to_string i) = Some pi \<and>
                 port_type pi = typeid (CType ''int'' 3) \<and> my_name pi = to_string i \<and>
                 preallocated pi =
                   Some \<lparr>base_ptr = 0, element_offset = 0, length_in_elements = 0\<rparr>"
    by blast
  from recs [rule_format, of 0] have first: "slice_of p' (to_string 0) = Some (0, 0)"
    by (auto simp: slice_of_def)
  from pos null empty run size first show ?thesis
    by (auto simp: Port_of_kernel_def)
qed

text \<open>
  Claim C10 as stated, for every table, fails when a name is taken. On a container without
  a buffer, after \<open>addPort<int>("0")\<close> the call \<open>addPorts<int>(1)\<close> adds no record, and the
  record \<open>"0"\<close> of the table carries no slice at all.
\<close>

theorem addPorts_without_buffer_counterexample:
  "map_sum id slices
     (calls [AddPort (CType ''int'' 3) ''0'', AddPorts (CType ''int'' 3) 1] (Port_of_kernel 7)) =
     Inr [(''0'', None)]"
  by code_simp

text \<open>
  Claim C2. \<open>addPort<T>(name)\<close> on a table without \<open>name\<close> returns \<open>true\<close> and leaves a
  record of element type \<open>T\<close> under \<open>name\<close>. After any further declarations, \<open>addPort\<close>
  with this name and any element type returns \<open>false\<close> and changes nothing, and the record
  under \<open>name\<close> is still the first one.
\<close>

theorem addPort_first_declaration_wins:
  assumes "map_find (portmap p) port_name = None"
  shows "\<exists>p' pi. addPort T port_name p = Inr (True, p') \<and>
           map_find (portmap p') port_name = Some pi \<and>
           port_type pi = typeid T \<and> my_name pi = port_name \<and>
           (\<forall>cs q T'. calls cs p' = Inr q \<longrightarrow>
              addPort T' port_name q = Inr (False, q) \<and>
              map_find (portmap q) port_name = Some pi)"
proof -
  let ?pi = "declared_record T (kernel p) port_name"
  let ?p = "p\<lparr>portmap := portmap p @ [(port_name, ?pi)]\<rparr>"
  have result: "addPort T port_name p = Inr (True, ?p)"
    using assms by (simp add: addPort_eq map_insert_fresh)
  have found: "map_find (portmap ?p) port_name = Some ?pi"
    using assms by (simp add: map_find_append) (simp add: map_find_def)
  have again: "addPort T' port_name q = Inr (False, q) \<and> map_find (portmap q) port_name = Some ?pi"
    if "calls cs ?p = Inr q" for cs q T'
  proof -
    from that found have "map_find (portmap q) port_name = Some ?pi"
      by (rule calls_keeps)
    then show ?thesis
      by (simp add: addPort_eq map_insert_present)
  qed
  from result found again show ?thesis
    by (intro exI [of _ ?p] exI [of _ ?pi]) (simp add: declared_record_def)
qed

theorem addPort_first_declaration_wins_witness:
  "map_find (portmap (Port_of_kernel 7)) ''in'' = None \<and>
   (\<exists>p' pi. addPort (CType ''int'' 3) ''in'' (Port_of_kernel 7) = Inr (True, p') \<and>
      port_type pi = ''int'' \<and>
      addPort (CType ''double'' 7) ''in'' p' = Inr (False, p') \<and>
      map_find (portmap p') ''in'' = Some pi)"
proof -
  have fresh: "map_find (portmap (Port_of_kernel 7)) ''in'' = None"
    by (simp add: Port_of_kernel_def map_find_def)
  from addPort_first_declaration_wins [OF fresh, of "CType ''int'' 3"]
  obtain p' pi where run: "addPort (CType ''int'' 3) ''in'' (Port_of_kernel 7) = Inr (True, p')"
    and tag: "port_type pi = typeid (CType ''int'' 3)"
    and later: "\<forall>cs q T'. calls cs p' = Inr q \<longrightarrow>
              addPort T' ''in'' q = Inr (False, q) \<and> map_find (portmap q) ''in'' = Some pi"
    by blast
  from later [rule_format, of "[]" p' "CType ''double'' 7"]
  have "addPort (CType ''double'' 7) ''in'' p' = Inr (False, p') \<and> map_find (portmap p') ''in'' = Some pi"
    by simp
  with fresh run tag show ?thesis
    by (auto simp: typeid_def)
qed

subsection \<open>The factory registry\<close>

lemma factory_registry:
  "const_map pi = registry T \<Longrightarrow>
     factory pi Heap False = Some (make_new_fifo T Heap False) \<and>
     factory pi Heap True = Some (make_new_fifo T Heap True) \<and>
     factory pi SharedMemory False = Some (make_new_fifo T SharedMemory False) \<and>
     factory pi SharedMemory True = None"
  by (simp add: factory_def registry_def map_find_def)

lemma perform_new:
  assumes "perform c p = Inr (b, p')" and "entry \<in> set (portmap p')"
    and "entry \<notin> set (portmap p)"
  shows "\<exists>T. port_type (snd entry) = typeid T \<and> const_map (snd entry) = registry T"
proof (cases c)
  case (AddPort T x)
  with assms have "entry = (x, declared_record T (kernel p) x)"
    by (cases "map_find (portmap p) x") (auto simp: addPort_eq map_insert_fresh map_insert_present)
  then show ?thesis
    by (auto simp: declared_record_def)
next
  case (AddPorts T n)
  with assms(1) have "0 < n"
    by (cases n) (simp_all add: addPorts_zero)
  with assms AddPorts obtain j where
    "entry = (to_string j, sliced_record T (kernel p) (alloc_ptr p) n
       ((alloc_ptr_length p div sizeof T) div n) ((alloc_ptr_length p div sizeof T) mod n) j)"
    by (auto simp: addPorts_eq)
  then show ?thesis
    by (auto simp: sliced_record_def)
qed

lemma calls_new:
  assumes "calls cs p = Inr p'" and "entry \<in> set (portmap p')" and "entry \<notin> set (portmap p)"
  shows "\<exists>T. port_type (snd entry) = typeid T \<and> const_map (snd entry) = registry T"
  using assms
proof (induction cs arbitrary: p)
  case Nil
  then show ?case by simp
next
  case (Cons c cs)
  from Cons.prems(1) obtain b q where first: "perform c p = Inr (b, q)" and rest: "calls cs q = Inr p'"
    by (auto split: sum.splits)
  show ?case
  proof (cases "entry \<in> set (portmap q)")
    case True
    with first Cons.prems(3) show ?thesis
      by (intro perform_new)
  next
    case False
    with rest Cons.prems(2) show ?thesis
      by (intro Cons.IH)
  qed
qed

text \<open>
  Claim C6. Every record that a sequence of \<open>addPort\<close> and \<open>addPorts\<close> calls has put into
  the table holds, for its element type \<open>T\<close>, the factories of the heap queue without and
  with instrumentation and of the shared-memory queue without instrumentation, and no
  factory for an instrumented shared-memory queue. These four are all the pairs of a
  storage class and a flag.
\<close>

theorem registry_invariant:
  assumes "calls cs p = Inr p'" and "(port_name, pi) \<in> set (portmap p')"
    and "(port_name, pi) \<notin> set (portmap p)"
  shows "\<exists>T. port_type pi = typeid T \<and>
           factory pi Heap False = Some (make_new_fifo T Heap False) \<and>
           factory pi Heap True = Some (make_new_fifo T Heap True) \<and>
           factory pi SharedMemory False = Some (make_new_fifo T SharedMemory False) \<and>
           factory pi SharedMemory True = None"
proof -
  from calls_new [OF assms] obtain T where "port_type pi = typeid T" and "const_map pi = registry T"
    by auto
  with factory_registry [of pi T] show ?thesis
    by blast
qed

theorem registry_invariant_witness:
  "calls [AddPort (CType ''int'' 3) ''in''] (Port_of_kernel 7) =
     Inr \<lparr>portmap = [(''in'', declared_record (CType ''int'' 3) 7 ''in'')], kernel = 7,
          alloc_ptr = 0, alloc_ptr_length = 0\<rparr> \<and>
   factory (declared_record (CType ''int'' 3) 7 ''in'') Heap True =
     Some (make_new_fifo (CType ''int'' 3) Heap True) \<and>
   factory (declared_record (CType ''int'' 3) 7 ''in'') SharedMemory True = None"
proof -
  let ?pi = "declared_record (CType ''int'' 3) 7 ''in''"
  let ?p = "\<lparr>portmap = [(''in'', ?pi)], kernel = 7, alloc_ptr = 0, alloc_ptr_length = 0\<rparr>"
  have run: "calls [AddPort (CType ''int'' 3) ''in''] (Port_of_kernel 7) = Inr ?p"
    by (simp add: addPort_eq map_insert_def map_find_def Port_of_kernel_def)
  have new: "(''in'', ?pi) \<in> set (portmap ?p)"
    by simp
  have old: "(''in'', ?pi) \<notin> set (portmap (Port_of_kernel 7))"
    by (simp add: Port_of_kernel_def)
  from registry_invariant [OF run new old] obtain T where
    "port_type ?pi = typeid T"
    "factory ?pi Heap True = Some (make_new_fifo T Heap True)"
    "factory ?pi SharedMemory True = None"
    by blast
  moreover have "factory ?pi Heap True = Some (make_new_fifo (CType ''int'' 3) Heap True)"
    by (simp add: factory_def declared_record_def registry_def map_find_def)
  ultimately show ?thesis
    using run by simp
qed

subsection \<open>Lookup and enumeration\<close>

lemma keys_after_calls:
  assumes "calls cs p = Inr p'"
  shows "set (map fst (portmap p')) = set (map fst (portmap p)) \<union> set (names_of_calls cs)"
  using calls_keys [OF assms] by (simp add: foldl_add_name_set)

text \<open>
  Claim C4. In a state reached by declarations, each of \<open>getPortType\<close>, \<open>operator[]\<close> and
  \<open>getPortInfoFor\<close> fails with \<open>PortNotFound\<close> exactly for the names that neither were in
  the table at the start nor were declared since, and fails in no other way. For a name
  with a record, they return its type tag, its queue and the record itself.
\<close>

theorem lookup_PortNotFound_iff:
  assumes "calls cs p = Inr p'"
  shows "(getPortType p' port_name = Inl PortNotFound \<longleftrightarrow>
            port_name \<notin> set (map fst (portmap p)) \<union> set (names_of_calls cs)) \<and>
         (port_at p' port_name = Inl PortNotFound \<longleftrightarrow>
            port_name \<notin> set (map fst (portmap p)) \<union> set (names_of_calls cs)) \<and>
         (getPortInfoFor p' port_name = Inl PortNotFound \<longleftrightarrow>
            port_name \<notin> set (map fst (portmap p)) \<union> set (names_of_calls cs)) \<and>
         (\<forall>e. getPortType p' port_name = Inl e \<or> port_at p' port_name = Inl e \<or>
              getPortInfoFor p' port_name = Inl e \<longrightarrow> e = PortNotFound) \<and>
         (\<forall>pi. map_find (portmap p') port_name = Some pi \<longrightarrow>
            getPortType p' port_name = Inr (port_type pi) \<and>
            port_at p' port_name = Inr (fifo pi) \<and>
            getPortInfoFor p' port_name = Inr pi)"
proof -
  have "map_find (portmap p') port_name = None \<longleftrightarrow>
      port_name \<notin> set (map fst (portmap p)) \<union> set (names_of_calls cs)"
    unfolding map_find_None_iff keys_after_calls [OF assms] ..
  then show ?thesis
    by (cases "map_find (portmap p') port_name")
       (simp_all add: getPortType_def port_at_def getPortInfoFor_def)
qed

theorem lookup_PortNotFound_iff_witness:
  "calls [AddPort (CType ''int'' 3) ''in''] (Port_of_kernel 7) =
     Inr \<lparr>portmap = [(''in'', declared_record (CType ''int'' 3) 7 ''in'')], kernel = 7,
          alloc_ptr = 0, alloc_ptr_length = 0\<rparr> \<and>
   getPortInfoFor \<lparr>portmap = [(''in'', declared_record (CType ''int'' 3) 7 ''in'')], kernel = 7,
          alloc_ptr = 0, alloc_ptr_length = 0\<rparr> ''missing'' = Inl PortNotFound \<and>
   getPortType \<lparr>portmap = [(''in'', declared_record (CType ''int'' 3) 7 ''in'')], kernel = 7,
          alloc_ptr = 0, alloc_ptr_length = 0\<rparr> ''in'' \<noteq> Inl PortNotFound"
proof -
  let ?pi = "declared_record (CType ''int'' 3) 7 ''in''"
  let ?p = "\<lparr>portmap = [(''in'', ?pi)], kernel = 7, alloc_ptr = 0, alloc_ptr_length = 0\<rparr>"
  have run: "calls [AddPort (CType ''int'' 3) ''in''] (Port_of_kernel 7) = Inr ?p"
    by (simp add: addPort_eq map_insert_def map_find_def Port_of_kernel_def)
  from lookup_PortNotFound_iff [OF run, of "''missing''"] lookup_PortNotFound_iff [OF run, of "''in''"]
  show ?thesis
    using run by (simp add: names_of_calls_def Port_of_kernel_def)
qed

text \<open>
  Claim C5. \<open>getPortInfo()\<close> returns a record exactly when \<open>count()\<close> is 1, and then the
  record is the only one of the table; it fails with \<open>AmbiguousPort\<close> exactly when
  \<open>count()\<close> is 0 or more than 1, and fails in no other way.
\<close>

theorem getPortInfo_iff_single:
  "((\<exists>pi. getPortInfo p = Inr pi) \<longleftrightarrow> count p = 1) \<and>
   (getPortInfo p = Inl AmbiguousPort \<longleftrightarrow> count p = 0 \<or> 1 < count p) \<and>
   (\<forall>e. getPortInfo p = Inl e \<longrightarrow> e = AmbiguousPort) \<and>
   (\<forall>pi. getPortInfo p = Inr pi \<longrightarrow> (\<exists>port_name. portmap p = [(port_name, pi)]))"
proof (cases "portmap p")
  case Nil
  then show ?thesis
    by (simp add: getPortInfo_def count_def)
next
  case (Cons entry rest)
  then show ?thesis
    by (cases rest; cases entry) (auto simp: getPortInfo_def count_def)
qed

theorem getPortInfo_iff_single_witness:
  "getPortInfo (Port_of_kernel 7) = Inl AmbiguousPort \<and> count (Port_of_kernel 7) = 0 \<and>
   getPortInfo \<lparr>portmap = [(''in'', declared_record (CType ''int'' 3) 7 ''in'')], kernel = 7,
          alloc_ptr = 0, alloc_ptr_length = 0\<rparr> = Inr (declared_record (CType ''int'' 3) 7 ''in'')"
  using getPortInfo_iff_single [of "Port_of_kernel 7"]
    getPortInfo_iff_single [of "\<lparr>portmap = [(''in'', declared_record (CType ''int'' 3) 7 ''in'')],
      kernel = 7, alloc_ptr = 0, alloc_ptr_length = 0\<rparr>"]
  by (auto simp: count_def Port_of_kernel_def)

text \<open>
  Claim C7. In a state reached by declarations from an empty table, \<open>hasPorts()\<close> is true
  exactly when \<open>count()\<close> is positive, and \<open>count()\<close> is the number of different names the
  declarations have inserted.
\<close>

theorem count_distinct_names:
  assumes "calls cs p = Inr p'" and "portmap p = []"
  shows "(hasPorts p' \<longleftrightarrow> 0 < count p') \<and> count p' = card (set (names_of_calls cs))"
proof -
  from calls_keys [OF assms(1)] assms(2)
  have keys: "map fst (portmap p') = foldl add_name [] (names_of_calls cs)"
    by simp
  then have "distinct (map fst (portmap p'))"
    by (simp add: foldl_add_name_distinct)
  then have "card (set (map fst (portmap p'))) = length (portmap p')"
    using distinct_card by fastforce
  moreover have "set (map fst (portmap p')) = set (names_of_calls cs)"
    unfolding keys by (simp add: foldl_add_name_set)
  ultimately show ?thesis
    by (simp add: hasPorts_def count_def)
qed

theorem count_distinct_names_witness:
  "calls [AddPort (CType ''int'' 3) ''in'', AddPort (CType ''double'' 7) ''in''] (Port_of_kernel 7) =
     Inr \<lparr>portmap = [(''in'', declared_record (CType ''int'' 3) 7 ''in'')], kernel = 7,
          alloc_ptr = 0, alloc_ptr_length = 0\<rparr> \<and>
   portmap (Port_of_kernel 7) = [] \<and>
   count \<lparr>portmap = [(''in'', declared_record (CType ''int'' 3) 7 ''in'')], kernel = 7,
          alloc_ptr = 0, alloc_ptr_length = 0\<rparr> = 1 \<and>
   card (set (names_of_calls [AddPort (CType ''int'' 3) ''in'', AddPort (CType ''double'' 7) ''in''])) = 1"
proof -
  let ?pi = "declared_record (CType ''int'' 3) 7 ''in''"
  let ?p = "\<lparr>portmap = [(''in'', ?pi)], kernel = 7, alloc_ptr = 0, alloc_ptr_length = 0\<rparr>"
  have run: "calls [AddPort (CType ''int'' 3) ''in'', AddPort (CType ''double'' 7) ''in''] (Port_of_kernel 7) = Inr ?p"
    by (simp add: addPort_eq map_insert_def map_find_def Port_of_kernel_def)
  have empty: "portmap (Port_of_kernel 7) = []"
    by (simp add: Port_of_kernel_def)
  from count_distinct_names [OF run empty] show ?thesis
    using run empty by (simp add: count_def)
qed

text \<open>
  Claim C8. In a state reached by declarations from an empty table, the traversal from
  \<open>begin()\<close> to \<open>end()\<close> visits the inserted names, each once, in the order of their first
  insertion. The sequence depends on the table alone, so a second traversal of an unchanged
  table gives the same sequence. The order is not the alphabetical one: declaring \<open>"b"\<close>
  and then \<open>"a"\<close> enumerates \<open>"b"\<close> first.
\<close>

theorem enumeration_insertion_order:
  assumes "calls cs p = Inr p'" and "portmap p = []"
  shows "enumeration p' = first_occurrences (names_of_calls cs) \<and>
         distinct (enumeration p') \<and>
         set (enumeration p') = set (names_of_calls cs) \<and>
         (\<forall>q. portmap q = portmap p' \<longrightarrow> enumeration q = enumeration p') \<and>
         (\<exists>q. calls [AddPort T ''b'', AddPort T ''a''] p = Inr q \<and>
              enumeration q = [''b'', ''a''] \<and> \<not> sorted (enumeration q))"
proof -
  from calls_keys [OF assms(1)] assms(2)
  have order: "enumeration p' = first_occurrences (names_of_calls cs)"
    by (simp add: enumeration_keys first_occurrences_def)
  then have once: "distinct (enumeration p')"
    and all: "set (enumeration p') = set (names_of_calls cs)"
    by (simp_all add: first_occurrences_def foldl_add_name_distinct foldl_add_name_set)
  have same: "enumeration q = enumeration p'" if "portmap q = portmap p'" for q
    using that by (simp add: enumeration_keys)
  let ?q = "p\<lparr>portmap := [(''b'', declared_record T (kernel p) ''b''),
                          (''a'', declared_record T (kernel p) ''a'')]\<rparr>"
  have "calls [AddPort T ''b'', AddPort T ''a''] p = Inr ?q"
    by (simp add: addPort_eq map_insert_def map_find_def assms(2))
  moreover have "enumeration ?q = [''b'', ''a'']"
    by (simp add: enumeration_keys)
  moreover have "\<not> sorted [''b'', ''a'']"
    by simp
  ultimately have other: "\<exists>q. calls [AddPort T ''b'', AddPort T ''a''] p = Inr q \<and>
      enumeration q = [''b'', ''a''] \<and> \<not> sorted (enumeration q)"
    by simp
  from order once all same other show ?thesis
    by blast
qed

theorem enumeration_insertion_order_witness:
  "calls [AddPort (CType ''int'' 3) ''out'', AddPorts (CType ''int'' 3) 2,
          AddPort (CType ''int'' 3) ''in'', AddPort (CType ''int'' 3) ''0'']
     (Port_of_buffer 7 4096 40) \<noteq> Inl DivisionByZero \<and>
   portmap (Port_of_buffer 7 4096 40) = [] \<and>
   map_sum id enumeration
     (calls [AddPort (CType ''int'' 3) ''out'', AddPorts (CType ''int'' 3) 2,
             AddPort (CType ''int'' 3) ''in'', AddPort (CType ''int'' 3) ''0'']
        (Port_of_buffer 7 4096 40)) =
     Inr [''out'', ''0'', ''1'', ''in'']"
proof -
  let ?cs = "[AddPort (CType ''int'' 3) ''out'', AddPorts (CType ''int'' 3) 2,
              AddPort (CType ''int'' 3) ''in'', AddPort (CType ''int'' 3) ''0'']"
  have empty: "portmap (Port_of_buffer 7 4096 40) = []"
    by (simp add: Port_of_buffer_def)
  have "\<exists>p'. calls ?cs (Port_of_buffer 7 4096 40) = Inr p'"
    by (subst calls_total) simp
  then obtain p' where run: "calls ?cs (Port_of_buffer 7 4096 40) = Inr p'"
    by blast
  have names: "first_occurrences (names_of_calls ?cs) = [''out'', ''0'', ''1'', ''in'']"
    by code_simp
  from enumeration_insertion_order [OF run empty, of "CType ''int'' 3"] names
  have "enumeration p' = [''out'', ''0'', ''1'', ''in'']"
    by simp
  with run empty show ?thesis
    by simp
qed

end
